theory Spec2Isabelle
  imports Main
begin

section \<open>Errors\<close>

text \<open>
  Go error values that occur in the repository. \<open>EOF\<close>, \<open>ErrUnexpectedEOF\<close> and
  \<open>ErrClosedPipe\<close> are the sentinels of package io, \<open>Canceled\<close> is context.Canceled,
  \<open>New msg\<close> is \<open>errors.New(msg)\<close>. \<open>Errorf fmt args\<close> is \<open>fmt.Errorf(fmt, args...)\<close> with
  integer arguments and no \<open>%w\<close> verb; \<open>Wrapf fmt args e\<close> is \<open>fmt.Errorf\<close> whose format
  ends in \<open>%w\<close> and wraps \<open>e\<close>. The message text is kept as the format string with its
  arguments beside it.
\<close>

datatype error =
    EOF
  | ErrUnexpectedEOF
  | ErrClosedPipe
  | Canceled
  | New string
  | Errorf string "int list"
  | Wrapf string "int list" error

text \<open>\<open>errors.Is(err, target)\<close>: \<open>err\<close> equals the target or wraps an error that does.\<close>

fun errors_Is :: "error \<Rightarrow> error \<Rightarrow> bool" where
  "errors_Is (Wrapf f a e) t = (Wrapf f a e = t \<or> errors_Is e t)"
| "errors_Is e t = (e = t)"

section \<open>Slices of items\<close>

text \<open>
  A value of type \<open>any\<close> is nil (\<open>None\<close>) or holds a value. A Go slice is a reference: the
  backing array it points into, the offset of its first element there, its length and
  its capacity. The store holds the backing arrays, addressed by their index; an array
  never changes its size. The nil slice has no capacity.
\<close>

type_synonym 'a any = "'a option"

record slice =
  s_arr :: nat
  s_off :: nat
  s_len :: nat
  s_cap :: nat

type_synonym 'a store = "'a any list list"

definition nil_slice :: slice where
  "nil_slice = \<lparr>s_arr = 0, s_off = 0, s_len = 0, s_cap = 0\<rparr>"

definition array_at :: "'a store \<Rightarrow> nat \<Rightarrow> 'a any list" where
  "array_at h a = (if a < length h then h ! a else [])"

text \<open>The elements a slice holds in a store.\<close>

definition slice_elems :: "'a store \<Rightarrow> slice \<Rightarrow> 'a any list" where
  "slice_elems h sl = take (s_len sl) (drop (s_off sl) (array_at h (s_arr sl)))"

text \<open>Writing the elements \<open>ys\<close> into an array from index \<open>i\<close> on.\<close>

definition write_at :: "'b list \<Rightarrow> nat \<Rightarrow> 'b list \<Rightarrow> 'b list" where
  "write_at xs i ys = take i xs @ ys @ drop (i + length ys) xs"

text \<open>
  \<open>append(dst, src...)\<close>: when the capacity of \<open>dst\<close> suffices the elements of \<open>src\<close> are
  written into the backing array of \<open>dst\<close>, right after its elements, and the result
  shares that array; otherwise a new array is allocated, large enough, and the elements
  of both are copied into it. How large the new array is the Go runtime decides: its
  choice is the parameter \<open>grow\<close>, given the old capacity and the length needed.
\<close>

definition append_slice ::
  "(nat \<Rightarrow> nat \<Rightarrow> nat) \<Rightarrow> 'a store \<Rightarrow> slice \<Rightarrow> slice \<Rightarrow> slice \<times> 'a store" where
  "append_slice grow h dst src =
     (let xs = slice_elems h src; n = s_len dst + s_len src
      in if n \<le> s_cap dst then
           (dst\<lparr>s_len := n\<rparr>,
            h[s_arr dst := write_at (array_at h (s_arr dst)) (s_off dst + s_len dst) xs])
         else
           let c = max n (grow (s_cap dst) n)
           in (\<lparr>s_arr = length h, s_off = 0, s_len = n, s_cap = c\<rparr>,
               h @ [slice_elems h dst @ xs @ replicate (c - n) None]))"

section \<open>The synchronous Pipe (buf-reader-writer/easy)\<close>

definition MaxItems :: nat where
  "MaxItems = 9999"

text \<open>
  The interfaces \<open>Producer\<close> and \<open>Consumer\<close>: an implementation is a state type with the
  methods as transformers of its state and of the store, which it shares with \<open>Pipe\<close>.
  \<open>Next\<close> returns \<open>(items, cookie, err)\<close>, the items as a slice.
\<close>

record ('a, 'p) Producer =
  Next :: "'p \<Rightarrow> 'a store \<Rightarrow> (slice \<times> int \<times> error option) \<times> 'p \<times> 'a store"
  Commit :: "int \<Rightarrow> 'p \<Rightarrow> 'a store \<Rightarrow> error option \<times> 'p \<times> 'a store"

record ('a, 'c) Consumer =
  Process :: "slice \<Rightarrow> 'c \<Rightarrow> 'a store \<Rightarrow> error option \<times> 'c \<times> 'a store"

text \<open>
  The calls \<open>Pipe\<close> makes on its collaborators, in the order they are made, with what each
  returned. A \<open>Next\<close> is logged with the slice it returned and the elements the slice held
  on return, a \<open>Process\<close> with the slice it was passed and the elements the slice held at
  the call.
\<close>

datatype 'a call =
    CallNext slice "'a any list" int "error option"
  | CallProcess slice "'a any list" "error option"
  | CallCommit int "error option"

text \<open>
  The state of a run of \<open>Pipe\<close>: the locals \<open>buf\<close> and \<open>cookies\<close>, the state of the
  producer and of the consumer, the store, and the calls made so far. The slice
  \<open>cookies\<close> never leaves \<open>Pipe\<close>, so it is kept as the list of its elements.
\<close>

record ('a, 'p, 'c) pipe_state =
  buf :: slice
  cookies :: "int list"
  pstate :: 'p
  cstate :: 'c
  store :: "'a store"
  calls :: "'a call list"

text \<open>The loop \<open>for _, ck := range cookies\<close>: it returns at the first failing Commit.\<close>

fun commit_range ::
  "('a, 'p) Producer \<Rightarrow> int list \<Rightarrow> 'p \<Rightarrow> 'a store \<Rightarrow> 'a call list
     \<Rightarrow> error option \<times> 'p \<times> 'a store \<times> 'a call list"
where
  "commit_range P [] p h tr = (None, p, h, tr)"
| "commit_range P (ck # cks) p h tr =
     (case Commit P ck p h of
        (Some err, p', h') \<Rightarrow>
          (Some (Wrapf ''error commiting cookie %d: %w'' [ck] err), p', h',
           tr @ [CallCommit ck (Some err)])
      | (None, p', h') \<Rightarrow> commit_range P cks p' h' (tr @ [CallCommit ck None]))"

text \<open>
  One iteration of the \<open>for\<close> loop of \<open>Pipe\<close>: \<open>Inl (err, s)\<close> is \<open>return err\<close> in state
  \<open>s\<close>, \<open>Inr s\<close> is the state at the start of the next iteration. \<open>buf = items\<close> keeps the
  producer's slice, and \<open>append(buf, items...)\<close> may write into its backing array.
\<close>

definition Pipe_body ::
  "(nat \<Rightarrow> nat \<Rightarrow> nat) \<Rightarrow> ('a, 'p) Producer \<Rightarrow> ('a, 'c) Consumer \<Rightarrow> ('a, 'p, 'c) pipe_state
     \<Rightarrow> (error \<times> ('a, 'p, 'c) pipe_state) + ('a, 'p, 'c) pipe_state"
where
  "Pipe_body grow P C s =
     (case Next P (pstate s) (store s) of ((items, cookie, err), p1, h1) \<Rightarrow>
        let s1 = s\<lparr>pstate := p1, store := h1,
                   calls := calls s @ [CallNext items (slice_elems h1 items) cookie err]\<rparr> in
        (case err of
           Some e \<Rightarrow> Inl (Wrapf ''read error: %w'' [] e, s1)
         | None \<Rightarrow>
             if s_len (buf s1) + s_len items \<le> MaxItems then
               (case append_slice grow (store s1) (buf s1) items of
                  (b, h2) \<Rightarrow> Inr (s1\<lparr>buf := b, store := h2, cookies := cookies s1 @ [cookie]\<rparr>))
             else
               (case Process C (buf s1) (cstate s1) (store s1) of (perr, c1, h2) \<Rightarrow>
                  let s2 = s1\<lparr>cstate := c1, store := h2,
                             calls := calls s1 @
                               [CallProcess (buf s1) (slice_elems (store s1) (buf s1)) perr]\<rparr> in
                  (case perr of
                     Some e \<Rightarrow> Inl (Wrapf ''push error: %w'' [] e, s2)
                   | None \<Rightarrow>
                       (case commit_range P (cookies s2) (pstate s2) (store s2) (calls s2) of
                          (Some e, p2, h3, tr) \<Rightarrow>
                            Inl (e, s2\<lparr>pstate := p2, store := h3, calls := tr\<rparr>)
                        | (None, p2, h3, tr) \<Rightarrow>
                            Inr (s2\<lparr>pstate := p2, store := h3, calls := tr,
                                    buf := items, cookies := [cookie]\<rparr>))))))"

text \<open>
  The loop has no exit but \<open>return\<close>, and a producer that never fails keeps it running
  for ever. \<open>Pipe_loop n\<close> runs at most \<open>n\<close> iterations: \<open>Inl (err, s)\<close> when \<open>Pipe\<close> has
  returned \<open>err\<close>, \<open>Inr s\<close> when it is still running, in state \<open>s\<close>, after \<open>n\<close> iterations.
\<close>

fun Pipe_loop ::
  "nat \<Rightarrow> (nat \<Rightarrow> nat \<Rightarrow> nat) \<Rightarrow> ('a, 'p) Producer \<Rightarrow> ('a, 'c) Consumer \<Rightarrow> ('a, 'p, 'c) pipe_state
     \<Rightarrow> (error \<times> ('a, 'p, 'c) pipe_state) + ('a, 'p, 'c) pipe_state"
where
  "Pipe_loop 0 grow P C s = Inr s"
| "Pipe_loop (Suc n) grow P C s =
     (case Pipe_body grow P C s of Inl r \<Rightarrow> Inl r | Inr s' \<Rightarrow> Pipe_loop n grow P C s')"

text \<open>\<open>Pipe\<close> from its first statement, on a producer, a consumer and a store.\<close>

definition Pipe ::
  "nat \<Rightarrow> (nat \<Rightarrow> nat \<Rightarrow> nat) \<Rightarrow> ('a, 'p) Producer \<Rightarrow> ('a, 'c) Consumer \<Rightarrow> 'p \<Rightarrow> 'c \<Rightarrow> 'a store
     \<Rightarrow> (error \<times> ('a, 'p, 'c) pipe_state) + ('a, 'p, 'c) pipe_state"
where
  "Pipe n grow P C p c h =
     Pipe_loop n grow P C
       \<lparr>buf = nil_slice, cookies = [], pstate = p, cstate = c, store = h, calls = []\<rparr>"

text \<open>The state a run is in, whether \<open>Pipe\<close> has returned or is still running.\<close>

definition state_of ::
  "(error \<times> ('a, 'p, 'c) pipe_state) + ('a, 'p, 'c) pipe_state \<Rightarrow> ('a, 'p, 'c) pipe_state" where
  "state_of r = (case r of Inl (err, s) \<Rightarrow> s | Inr s \<Rightarrow> s)"

subsection \<open>The test doubles of the Pipe tests\<close>

text \<open>
  \<open>mockProducer\<close> and \<open>mockConsumer\<close> of the test file, with items of type int as
  \<open>makeItems\<close> builds them. The tests build \<open>cookies\<close> as long as \<open>batches\<close>;
  \<open>m.cookies[m.callIndex]\<close> is read with \<open>!\<close>, within range in every use below. The
  consumer keeps a copy of the items it is passed, in an array of its own, which is kept
  here as the list of its elements.
\<close>

record mockProducer =
  batches :: "slice list"
  batch_cookies :: "int list"
  readErr :: "error option"
  callIndex :: nat
  commitErrForCookie :: int
  commitErr :: "error option"
  commitAttempts :: "int list"
  committed :: "int list"

definition mock_Next ::
  "mockProducer \<Rightarrow> int store \<Rightarrow> (slice \<times> int \<times> error option) \<times> mockProducer \<times> int store" where
  "mock_Next m h =
     (if callIndex m < length (batches m) then
        ((batches m ! callIndex m, batch_cookies m ! callIndex m, None),
         m\<lparr>callIndex := callIndex m + 1\<rparr>, h)
      else ((nil_slice, 0, readErr m), m, h))"

definition mock_Commit ::
  "int \<Rightarrow> mockProducer \<Rightarrow> int store \<Rightarrow> error option \<times> mockProducer \<times> int store" where
  "mock_Commit cookie m h =
     (let m1 = m\<lparr>commitAttempts := commitAttempts m @ [cookie]\<rparr> in
      if commitErr m1 \<noteq> None \<and> cookie = commitErrForCookie m1 then (commitErr m1, m1, h)
      else (None, m1\<lparr>committed := committed m1 @ [cookie]\<rparr>, h))"

record mockConsumer =
  processed :: "int any list list"
  procErr :: "error option"

definition mock_Process ::
  "slice \<Rightarrow> mockConsumer \<Rightarrow> int store \<Rightarrow> error option \<times> mockConsumer \<times> int store" where
  "mock_Process items m h =
     (let m1 = m\<lparr>processed := processed m @ [slice_elems h items]\<rparr> in
      if procErr m1 \<noteq> None then (procErr m1, m1, h) else (None, m1, h))"

definition mockP :: "(int, mockProducer) Producer" where
  "mockP = \<lparr>Next = mock_Next, Commit = mock_Commit\<rparr>"

definition mockC :: "(int, mockConsumer) Consumer" where
  "mockC = \<lparr>Process = mock_Process\<rparr>"

text \<open>The array that \<open>makeItems(start, count)\<close> allocates and fills.\<close>

definition makeItems :: "int \<Rightarrow> nat \<Rightarrow> int any list" where
  "makeItems start count = map (\<lambda>i. Some (start + int i)) [0..<count]"

text \<open>The slice over the whole of an array of \<open>n\<close> elements at address \<open>a\<close>.\<close>

definition whole :: "nat \<Rightarrow> nat \<Rightarrow> slice" where
  "whole a n = \<lparr>s_arr = a, s_off = 0, s_len = n, s_cap = n\<rparr>"

definition newProducer :: "slice list \<Rightarrow> int list \<Rightarrow> error option \<Rightarrow> mockProducer" where
  "newProducer bs cks rerr =
     \<lparr>batches = bs, batch_cookies = cks, readErr = rerr, callIndex = 0,
      commitErrForCookie = 0, commitErr = None, commitAttempts = [], committed = []\<rparr>"

definition newConsumer :: "error option \<Rightarrow> mockConsumer" where
  "newConsumer perr = \<lparr>processed = [], procErr = perr\<rparr>"




text \<open>The runtime that allocates exactly the length needed.\<close>

definition exact_grow :: "nat \<Rightarrow> nat \<Rightarrow> nat" where
  "exact_grow oldcap n = n"

subsection \<open>Reading the log of calls\<close>

text \<open>
  The batches that arrived: slice, elements on return, and cookie of each successful
  \<open>Next\<close>, in order.
\<close>

fun arrivals :: "'a call list \<Rightarrow> (slice \<times> 'a any list \<times> int) list" where
  "arrivals [] = []"
| "arrivals (CallNext items xs ck None # tr) = (items, xs, ck) # arrivals tr"
| "arrivals (c # tr) = arrivals tr"

definition batch_len :: "slice \<times> 'a any list \<times> int \<Rightarrow> nat" where
  "batch_len b = s_len (fst b)"


definition batch_cookie :: "slice \<times> 'a any list \<times> int \<Rightarrow> int" where
  "batch_cookie b = snd (snd b)"

text \<open>The calls to \<open>Process\<close> and \<open>Commit\<close>, in order.\<close>

fun is_work :: "'a call \<Rightarrow> bool" where
  "is_work (CallNext items xs ck e) = False"
| "is_work c = True"

definition work_calls :: "'a call list \<Rightarrow> 'a call list" where
  "work_calls tr = filter is_work tr"

fun call_err :: "'a call \<Rightarrow> error option" where
  "call_err (CallNext items xs ck e) = e"
| "call_err (CallProcess items xs e) = e"
| "call_err (CallCommit ck e) = e"

text \<open>
  A completed round: a group \<open>g\<close> of arrived batches with the slice \<open>sl\<close> and the elements
  \<open>xs\<close> that \<open>Process\<close> was passed for it. Its calls are the successful \<open>Process\<close> and then
  a successful \<open>Commit\<close> of each cookie of the group, in arrival order; the slice is as
  long as the batches of the group together.
\<close>

type_synonym 'a round = "(slice \<times> 'a any list \<times> int) list \<times> slice \<times> 'a any list"

definition round_batches :: "'a round \<Rightarrow> (slice \<times> 'a any list \<times> int) list" where
  "round_batches r = fst r"

definition round_calls :: "'a round \<Rightarrow> 'a call list" where
  "round_calls r =
     CallProcess (fst (snd r)) (snd (snd r)) None
       # map (\<lambda>ck. CallCommit ck None) (map batch_cookie (fst r))"

definition round_fits :: "'a round \<Rightarrow> bool" where
  "round_fits r \<longleftrightarrow> s_len (fst (snd r)) = sum_list (map batch_len (fst r))"


text \<open>
  The shape of a running state: the arrived batches are those of the completed rounds,
  followed by the pending batches \<open>pend\<close>, whose cookies are \<open>cookies\<close> and whose lengths
  add up to the length of \<open>buf\<close>; the work done is the calls of the rounds; no call has
  failed.
\<close>

definition running_shape ::
  "('a, 'p, 'c) pipe_state \<Rightarrow> 'a round list \<Rightarrow> (slice \<times> 'a any list \<times> int) list \<Rightarrow> bool" where
  "running_shape s rounds pend \<longleftrightarrow>
     arrivals (calls s) = concat (map round_batches rounds) @ pend \<and>
     s_len (buf s) = sum_list (map batch_len pend) \<and>
     cookies s = map batch_cookie pend \<and>
     work_calls (calls s) = concat (map round_calls rounds) \<and>
     list_all round_fits rounds \<and>
     list_all (\<lambda>c. call_err c = None) (calls s)"

text \<open>
  What it means that the commits of the cookies \<open>cks\<close>, made in order from the producer
  state \<open>p\<close> and the store \<open>h\<close>, all succeed, and the state and store they leave.
\<close>

fun commits_succeed :: "('a, 'p) Producer \<Rightarrow> int list \<Rightarrow> 'p \<Rightarrow> 'a store \<Rightarrow> bool" where
  "commits_succeed P [] p h = True"
| "commits_succeed P (ck # cks) p h =
     (case Commit P ck p h of
        (None, p', h') \<Rightarrow> commits_succeed P cks p' h'
      | (Some e, p', h') \<Rightarrow> False)"

fun after_commits :: "('a, 'p) Producer \<Rightarrow> int list \<Rightarrow> 'p \<Rightarrow> 'a store \<Rightarrow> 'p \<times> 'a store" where
  "after_commits P [] p h = (p, h)"
| "after_commits P (ck # cks) p h =
     (case Commit P ck p h of (e, p', h') \<Rightarrow> after_commits P cks p' h')"


definition grows :: "'a store \<Rightarrow> 'a store \<Rightarrow> bool" where
  "grows h h' \<longleftrightarrow> length h \<le> length h' \<and> (\<forall>a<length h. length (h' ! a) = length (h ! a))"

definition wf_slice :: "'a store \<Rightarrow> slice \<Rightarrow> bool" where
  "wf_slice h sl \<longleftrightarrow>
     s_len sl \<le> s_cap sl \<and>
     (s_cap sl = 0 \<or> (s_arr sl < length h \<and> s_off sl + s_cap sl \<le> length (h ! s_arr sl)))"




text \<open>The invariant of the mock producer: its batches are well formed slices.\<close>

definition mock_inv :: "mockProducer \<Rightarrow> int store \<Rightarrow> bool" where
  "mock_inv m h \<longleftrightarrow> list_all (wf_slice h) (batches m)"

subsection \<open>Runs of the Pipe tests\<close>

text \<open>
  The stores and producers of the tests: three batches of 4999, 5000 and 1 items with
  cookies 1, 2, 3 and then \<open>io.EOF\<close>, each batch in an array of its own; the same with
  \<open>Commit\<close> failing for cookie 2; two batches of 4999 and 5001 items; a first batch of
  10000 items, more than \<open>MaxItems\<close>; and a batch of one item followed by one of 10000.
\<close>

definition eof_run_store :: "int store" where
  "eof_run_store = [makeItems 0 4999, makeItems 4999 5000, makeItems 9999 1]"

definition eof_run_producer :: mockProducer where
  "eof_run_producer = newProducer [whole 0 4999, whole 1 5000, whole 2 1] [1, 2, 3] (Some EOF)"

definition commit_fail_producer :: mockProducer where
  "commit_fail_producer =
     eof_run_producer\<lparr>commitErrForCookie := 2, commitErr := Some (New ''commit failed'')\<rparr>"

definition overflow_store :: "int store" where
  "overflow_store = [makeItems 0 4999, makeItems 4999 5001]"

definition overflow_producer :: mockProducer where
  "overflow_producer = newProducer [whole 0 4999, whole 1 5001] [1, 2] (Some EOF)"










section \<open>Properties of the synchronous Pipe\<close>


lemma arrivals_append: "arrivals (xs @ ys) = arrivals xs @ arrivals ys"
  by (induction xs rule: arrivals.induct) auto

lemma work_calls_append: "work_calls (xs @ ys) = work_calls xs @ work_calls ys"
  by (simp add: work_calls_def)

lemma commit_range_succeeds:
  "commits_succeed P cks p h \<Longrightarrow>
     commit_range P cks p h tr =
       (None, fst (after_commits P cks p h), snd (after_commits P cks p h),
        tr @ map (\<lambda>ck. CallCommit ck None) cks)"
proof (induction cks arbitrary: p h tr)
  case Nil
  then show ?case by simp
next
  case (Cons ck cks)
  obtain e p1 h1 where c: "Commit P ck p h = (e, p1, h1)" by (cases "Commit P ck p h") auto
  with Cons.prems have e: "e = None" and rest: "commits_succeed P cks p1 h1"
    by (auto split: option.splits)
  from Cons.IH[OF rest, of "tr @ [CallCommit ck None]"] c e show ?case by simp
qed

lemma commit_range_fails:
  assumes "commits_succeed P pre p h" and "after_commits P pre p h = (pm, hm)"
    and "Commit P ck pm hm = (Some e, p', h')"
  shows "commit_range P (pre @ ck # post) p h tr =
           (Some (Wrapf ''error commiting cookie %d: %w'' [ck] e), p', h',
            tr @ map (\<lambda>ck. CallCommit ck None) pre @ [CallCommit ck (Some e)])"
  using assms
proof (induction pre arbitrary: p h tr)
  case Nil
  then show ?case by simp
next
  case (Cons c pre)
  obtain e1 p1 h1 where c: "Commit P c p h = (e1, p1, h1)" by (cases "Commit P c p h") auto
  with Cons.prems have e: "e1 = None" and rest: "commits_succeed P pre p1 h1"
    and aft: "after_commits P pre p1 h1 = (pm, hm)"
    by (auto split: option.splits)
  from Cons.IH[OF rest aft Cons.prems(3), of "tr @ [CallCommit c None]"] c e show ?case by simp
qed

lemma commit_range_ok:
  "commit_range P cks p h tr = (None, p', h', tr') \<Longrightarrow>
     tr' = tr @ map (\<lambda>ck. CallCommit ck None) cks \<and> commits_succeed P cks p h \<and>
     after_commits P cks p h = (p', h')"
proof (induction cks arbitrary: p h tr)
  case Nil
  then show ?case by simp
next
  case (Cons ck cks)
  obtain e p1 h1 where c: "Commit P ck p h = (e, p1, h1)" by (cases "Commit P ck p h") auto
  show ?case
  proof (cases e)
    case None
    with Cons.prems c have "commit_range P cks p1 h1 (tr @ [CallCommit ck None]) = (None, p', h', tr')"
      by simp
    from Cons.IH[OF this] c None show ?thesis by simp
  next
    case (Some err)
    with Cons.prems c show ?thesis by simp
  qed
qed

lemma commit_range_fail:
  "commit_range P cks p h tr = (Some e, p', h', tr') \<Longrightarrow>
     \<exists>pre ck post e' pm hm. cks = pre @ ck # post \<and>
        e = Wrapf ''error commiting cookie %d: %w'' [ck] e' \<and>
        tr' = tr @ map (\<lambda>ck. CallCommit ck None) pre @ [CallCommit ck (Some e')] \<and>
        commits_succeed P pre p h \<and> after_commits P pre p h = (pm, hm) \<and>
        Commit P ck pm hm = (Some e', p', h')"
proof (induction cks arbitrary: p h tr)
  case Nil
  then show ?case by simp
next
  case (Cons ck cks)
  obtain ce p1 h1 where c: "Commit P ck p h = (ce, p1, h1)" by (cases "Commit P ck p h") auto
  show ?case
  proof (cases ce)
    case None
    with Cons.prems c have "commit_range P cks p1 h1 (tr @ [CallCommit ck None]) = (Some e, p', h', tr')"
      by simp
    from Cons.IH[OF this] obtain pre ck' post e' pm hm where
      h: "cks = pre @ ck' # post" "e = Wrapf ''error commiting cookie %d: %w'' [ck'] e'"
         "tr' = (tr @ [CallCommit ck None]) @ map (\<lambda>ck. CallCommit ck None) pre @ [CallCommit ck' (Some e')]"
         "commits_succeed P pre p1 h1" "after_commits P pre p1 h1 = (pm, hm)"
         "Commit P ck' pm hm = (Some e', p', h')"
      by blast
    have "ck # cks = (ck # pre) @ ck' # post \<and> e = Wrapf ''error commiting cookie %d: %w'' [ck'] e' \<and>
        tr' = tr @ map (\<lambda>ck. CallCommit ck None) (ck # pre) @ [CallCommit ck' (Some e')] \<and>
        commits_succeed P (ck # pre) p h \<and> after_commits P (ck # pre) p h = (pm, hm) \<and>
        Commit P ck' pm hm = (Some e', p', h')"
      using h c None by simp
    then show ?thesis by blast
  next
    case (Some err)
    with Cons.prems c have "ck # cks = [] @ ck # cks \<and> e = Wrapf ''error commiting cookie %d: %w'' [ck] err \<and>
        tr' = tr @ map (\<lambda>ck. CallCommit ck None) [] @ [CallCommit ck (Some err)] \<and>
        commits_succeed P [] p h \<and> after_commits P [] p h = (p, h) \<and>
        Commit P ck p h = (Some err, p', h')"
      by auto
    then show ?thesis by blast
  qed
qed

lemma Pipe_loop_add:
  "Pipe_loop (a + b) G P C s =
     (case Pipe_loop a G P C s of Inl r \<Rightarrow> Inl r | Inr s' \<Rightarrow> Pipe_loop b G P C s')"
  by (induction a arbitrary: s) (auto split: sum.splits)

lemma Pipe_loop_snoc:
  "Pipe_loop (Suc n) G P C s =
     (case Pipe_loop n G P C s of Inl r \<Rightarrow> Inl r | Inr s' \<Rightarrow> Pipe_body G P C s')"
  using Pipe_loop_add[of n 1 G P C s] by (auto split: sum.splits)

lemma Pipe_Suc:
  "Pipe (Suc n) G P C p c h =
     (case Pipe n G P C p c h of Inl r \<Rightarrow> Inl r | Inr s' \<Rightarrow> Pipe_body G P C s')"
  unfolding Pipe_def by (rule Pipe_loop_snoc)

lemma Pipe_stable:
  "Pipe n G P C p c h = Inl r \<Longrightarrow> Pipe (n + m) G P C p c h = Inl r"
  by (simp add: Pipe_def Pipe_loop_add)

lemma errors_Is_refl: "errors_Is e e"
  by (cases e) simp_all

lemma errors_Is_Wrapf: "errors_Is (Wrapf f a e) e"
  by (simp add: errors_Is_refl)


lemma Pipe_body_read_error:
  assumes "Next P (pstate s) (store s) = ((items, ck, Some e), p1, h1)"
  shows "Pipe_body G P C s = Inl (Wrapf ''read error: %w'' [] e,
          s\<lparr>pstate := p1, store := h1,
            calls := calls s @ [CallNext items (slice_elems h1 items) ck (Some e)]\<rparr>)"
  using assms by (simp add: Pipe_body_def)

lemma Pipe_body_append:
  assumes "Next P (pstate s) (store s) = ((items, ck, None), p1, h1)"
    and "s_len (buf s) + s_len items \<le> MaxItems"
  shows "Pipe_body G P C s = Inr (s\<lparr>buf := fst (append_slice G h1 (buf s) items),
          cookies := cookies s @ [ck], pstate := p1,
          store := snd (append_slice G h1 (buf s) items),
          calls := calls s @ [CallNext items (slice_elems h1 items) ck None]\<rparr>)"
  using assms by (simp add: Pipe_body_def split: prod.splits)

lemma Pipe_body_process_error:
  assumes "Next P (pstate s) (store s) = ((items, ck, None), p1, h1)"
    and "MaxItems < s_len (buf s) + s_len items"
    and "Process C (buf s) (cstate s) h1 = (Some e, c1, h2)"
  shows "Pipe_body G P C s = Inl (Wrapf ''push error: %w'' [] e,
          s\<lparr>pstate := p1, cstate := c1, store := h2,
            calls := calls s @ [CallNext items (slice_elems h1 items) ck None,
                                CallProcess (buf s) (slice_elems h1 (buf s)) (Some e)]\<rparr>)"
  using assms by (simp add: Pipe_body_def)

lemma Pipe_body_commit_error:
  assumes "Next P (pstate s) (store s) = ((items, ck, None), p1, h1)"
    and "MaxItems < s_len (buf s) + s_len items"
    and "Process C (buf s) (cstate s) h1 = (None, c1, h2)"
    and "cookies s = pre @ ck' # post"
    and "commits_succeed P pre p1 h2" and "after_commits P pre p1 h2 = (pm, hm)"
    and "Commit P ck' pm hm = (Some e, p3, h3)"
  shows "Pipe_body G P C s = Inl (Wrapf ''error commiting cookie %d: %w'' [ck'] e,
          s\<lparr>pstate := p3, cstate := c1, store := h3,
            calls := calls s @ [CallNext items (slice_elems h1 items) ck None,
                                CallProcess (buf s) (slice_elems h1 (buf s)) None]
                       @ map (\<lambda>ck. CallCommit ck None) pre @ [CallCommit ck' (Some e)]\<rparr>)"
  using assms(1-4) commit_range_fails[OF assms(5-7), of post]
  by (simp add: Pipe_body_def)

lemma Pipe_body_flush:
  assumes "Next P (pstate s) (store s) = ((items, ck, None), p1, h1)"
    and "MaxItems < s_len (buf s) + s_len items"
    and "Process C (buf s) (cstate s) h1 = (None, c1, h2)"
    and "commits_succeed P (cookies s) p1 h2" and "after_commits P (cookies s) p1 h2 = (p2, h3)"
  shows "Pipe_body G P C s = Inr (s\<lparr>buf := items, cookies := [ck], pstate := p2, cstate := c1,
            store := h3,
            calls := calls s @ [CallNext items (slice_elems h1 items) ck None,
                                CallProcess (buf s) (slice_elems h1 (buf s)) None]
                       @ map (\<lambda>ck. CallCommit ck None) (cookies s)\<rparr>)"
  using assms(1-3,5) commit_range_succeeds[OF assms(4)]
  by (simp add: Pipe_body_def)

lemma Pipe_body_cases:
  obtains
    (ReadErr) items ck e p1 h1 where
      "Next P (pstate s) (store s) = ((items, ck, Some e), p1, h1)"
  | (Append) items ck p1 h1 where
      "Next P (pstate s) (store s) = ((items, ck, None), p1, h1)"
      "s_len (buf s) + s_len items \<le> MaxItems"
  | (ProcErr) items ck p1 h1 e c1 h2 where
      "Next P (pstate s) (store s) = ((items, ck, None), p1, h1)"
      "MaxItems < s_len (buf s) + s_len items"
      "Process C (buf s) (cstate s) h1 = (Some e, c1, h2)"
  | (CommitErr) items ck p1 h1 c1 h2 pre ck' post pm hm e p3 h3 where
      "Next P (pstate s) (store s) = ((items, ck, None), p1, h1)"
      "MaxItems < s_len (buf s) + s_len items"
      "Process C (buf s) (cstate s) h1 = (None, c1, h2)"
      "cookies s = pre @ ck' # post"
      "commits_succeed P pre p1 h2" "after_commits P pre p1 h2 = (pm, hm)"
      "Commit P ck' pm hm = (Some e, p3, h3)"
  | (Flush) items ck p1 h1 c1 h2 p2 h3 where
      "Next P (pstate s) (store s) = ((items, ck, None), p1, h1)"
      "MaxItems < s_len (buf s) + s_len items"
      "Process C (buf s) (cstate s) h1 = (None, c1, h2)"
      "commits_succeed P (cookies s) p1 h2" "after_commits P (cookies s) p1 h2 = (p2, h3)"
proof -
  obtain items ck err p1 h1 where nx: "Next P (pstate s) (store s) = ((items, ck, err), p1, h1)"
    by (cases "Next P (pstate s) (store s)") auto
  show thesis
  proof (cases err)
    case (Some e)
    with nx show thesis by (intro ReadErr[of items ck e p1 h1]) simp
  next
    case None
    show thesis
    proof (cases "s_len (buf s) + s_len items \<le> MaxItems")
      case True
      with None nx show thesis by (intro Append[of items ck p1 h1]) simp_all
    next
      case False
      obtain perr c1 h2 where pr: "Process C (buf s) (cstate s) h1 = (perr, c1, h2)"
        by (cases "Process C (buf s) (cstate s) h1") auto
      show thesis
      proof (cases perr)
        case (Some e)
        with None nx False pr show thesis
          by (intro ProcErr[of items ck p1 h1 e c1 h2]) simp_all
      next
        case pnone: None
        obtain cerr p2 h3 tr where cr: "commit_range P (cookies s) p1 h2 [] = (cerr, p2, h3, tr)"
          by (cases "commit_range P (cookies s) p1 h2 []") auto
        show thesis
        proof (cases cerr)
          case cnone: None
          from commit_range_ok[OF cr[unfolded cnone]] None nx False pr pnone show thesis
            by (intro Flush[of items ck p1 h1 c1 h2 p2 h3]) simp_all
        next
          case (Some e)
          from commit_range_fail[OF cr[unfolded Some]] obtain pre ck' post e' pm hm where
            h: "cookies s = pre @ ck' # post" "commits_succeed P pre p1 h2"
               "after_commits P pre p1 h2 = (pm, hm)" "Commit P ck' pm hm = (Some e', p2, h3)"
            by blast
          from None nx False pr pnone h show thesis
            by (intro CommitErr[of items ck p1 h1 c1 h2 pre ck' post pm hm e' p2 h3]) simp_all
        qed
      qed
    qed
  qed
qed



lemma append_slice_len: "s_len (fst (append_slice G h dst src)) = s_len dst + s_len src"
  by (simp add: append_slice_def Let_def)

lemma work_calls_work: "list_all is_work tr \<Longrightarrow> work_calls tr = tr"
  by (induction tr) (auto simp: work_calls_def)

lemma arrivals_work: "list_all is_work tr \<Longrightarrow> arrivals tr = []"
  by (induction tr rule: arrivals.induct) auto

lemma commits_work: "list_all is_work (map (\<lambda>ck. CallCommit ck None) cks)"
  by (induction cks) auto

lemma commits_ok: "list_all (\<lambda>c. call_err c = None) (map (\<lambda>ck. CallCommit ck None) cks)"
  by (induction cks) auto

lemma running_step:
  assumes sh: "running_shape s rounds pend" and b: "Pipe_body G P C s = Inr s'"
  shows "\<exists>rounds' pend'. running_shape s' rounds' pend'"
proof (cases rule: Pipe_body_cases[where P=P and s=s and C=C])
  case (ReadErr items ck e p1 h1)
  from Pipe_body_read_error[OF this, of G C] b show ?thesis by simp
next
  case (Append items ck p1 h1)
  from Pipe_body_append[OF this, of G C] b sh
  have "running_shape s' rounds (pend @ [(items, slice_elems h1 items, ck)])"
    by (auto simp: running_shape_def arrivals_append work_calls_append work_calls_def
          append_slice_len batch_len_def batch_cookie_def)
  then show ?thesis by blast
next
  case (ProcErr items ck p1 h1 e c1 h2)
  from Pipe_body_process_error[OF this, of G] b show ?thesis by simp
next
  case (CommitErr items ck p1 h1 c1 h2 pre ck' post pm hm e p3 h3)
  from Pipe_body_commit_error[OF this, of G] b show ?thesis by simp
next
  case (Flush items ck p1 h1 c1 h2 p2 h3)
  let ?cm = "map (\<lambda>ck. CallCommit ck None) (cookies s)"
  let ?r = "(pend, buf s, slice_elems h1 (buf s))"
  from Pipe_body_flush[OF Flush, of G] b
  have s': "calls s' = calls s @ [CallNext items (slice_elems h1 items) ck None,
                CallProcess (buf s) (slice_elems h1 (buf s)) None] @ ?cm"
    "buf s' = items" "cookies s' = [ck]" by auto
  from sh have sh': "arrivals (calls s) = concat (map round_batches rounds) @ pend"
    "s_len (buf s) = sum_list (map batch_len pend)"
    "cookies s = map batch_cookie pend" "work_calls (calls s) = concat (map round_calls rounds)"
    "list_all round_fits rounds"
    "list_all (\<lambda>c. call_err c = None) (calls s)"
    by (simp_all add: running_shape_def)
  have cm: "arrivals ?cm = []" "work_calls ?cm = ?cm" "list_all (\<lambda>c. call_err c = None) ?cm"
    by (rule arrivals_work[OF commits_work] work_calls_work[OF commits_work] commits_ok)+
  have rd: "round_calls ?r = CallProcess (buf s) (slice_elems h1 (buf s)) None # ?cm"
    by (simp only: round_calls_def sh' fst_conv snd_conv)
  have "arrivals (calls s') = concat (map round_batches (rounds @ [?r])) @ [(items, slice_elems h1 items, ck)]"
    by (simp add: s' arrivals_append cm sh'(1) round_batches_def)
  moreover have "work_calls (calls s') = concat (map round_calls (rounds @ [?r]))"
    unfolding s' work_calls_append cm by (simp add: sh'(4) rd) (simp add: work_calls_def)
  moreover have "list_all (\<lambda>c. call_err c = None) (calls s')"
    unfolding s' using cm(3) sh'(6) by simp
  moreover have "list_all round_fits (rounds @ [?r])"
    using sh'(5) sh'(2) by (simp add: round_fits_def)
  ultimately have "running_shape s' (rounds @ [?r]) [(items, slice_elems h1 items, ck)]"
    by (simp add: running_shape_def s' batch_len_def batch_cookie_def)
  then show ?thesis by blast
qed

lemma Pipe_running:
  "Pipe n G P C p c h = Inr s \<Longrightarrow> \<exists>rounds pend. running_shape s rounds pend"
proof (induction n arbitrary: s)
  case 0
  then have "running_shape s [] []"
    by (auto simp: Pipe_def running_shape_def work_calls_def nil_slice_def)
  then show ?case by blast
next
  case (Suc n)
  from Suc.prems obtain s0 where s0: "Pipe n G P C p c h = Inr s0" "Pipe_body G P C s0 = Inr s"
    unfolding Pipe_Suc by (auto split: sum.splits)
  from Suc.IH[OF s0(1)] running_step[OF _ s0(2)] show ?case by blast
qed

lemma Pipe_body_calls: "\<exists>ext. calls (state_of (Pipe_body G P C s)) = calls s @ ext"
proof (cases rule: Pipe_body_cases[where P=P and s=s and C=C])
  case (ReadErr items ck e p1 h1)
  from Pipe_body_read_error[OF this, of G C] show ?thesis by (simp add: state_of_def)
next
  case (Append items ck p1 h1)
  from Pipe_body_append[OF this, of G C] show ?thesis by (simp add: state_of_def)
next
  case (ProcErr items ck p1 h1 e c1 h2)
  from Pipe_body_process_error[OF this, of G] show ?thesis by (simp add: state_of_def)
next
  case (CommitErr items ck p1 h1 c1 h2 pre ck' post pm hm e p3 h3)
  from Pipe_body_commit_error[OF this, of G] show ?thesis by (simp add: state_of_def)
next
  case (Flush items ck p1 h1 c1 h2 p2 h3)
  from Pipe_body_flush[OF this, of G] show ?thesis by (simp add: state_of_def)
qed

lemma slice_elems_len: "length (slice_elems h sl) \<le> s_len sl"
  by (simp add: slice_elems_def)

lemma Pipe_body_capacity:
  assumes b: "s_len (buf s) \<le> MaxItems"
    and pc: "\<forall>items xs r. CallProcess items xs r \<in> set (calls s)
                \<longrightarrow> s_len items \<le> MaxItems \<and> length xs \<le> MaxItems"
    and nx: "\<forall>items xs ck e. CallNext items xs ck e \<in> set (calls (state_of (Pipe_body G P C s)))
                \<longrightarrow> s_len items \<le> MaxItems"
  shows "s_len (buf (state_of (Pipe_body G P C s))) \<le> MaxItems \<and>
         (\<forall>items xs r. CallProcess items xs r \<in> set (calls (state_of (Pipe_body G P C s)))
                \<longrightarrow> s_len items \<le> MaxItems \<and> length xs \<le> MaxItems)"
proof (cases rule: Pipe_body_cases[where P=P and s=s and C=C])
  case (ReadErr items ck e p1 h1)
  from Pipe_body_read_error[OF this, of G C] b pc show ?thesis by (auto simp: state_of_def)
next
  case (Append items ck p1 h1)
  from Pipe_body_append[OF this, of G C] Append(2) b pc show ?thesis
    by (auto simp: state_of_def append_slice_len)
next
  case (ProcErr items ck p1 h1 e c1 h2)
  have "length (slice_elems h1 (buf s)) \<le> MaxItems" using slice_elems_len[of h1 "buf s"] b by simp
  with Pipe_body_process_error[OF ProcErr, of G] b pc show ?thesis by (auto simp: state_of_def)
next
  case (CommitErr items ck p1 h1 c1 h2 pre ck' post pm hm e p3 h3)
  have "length (slice_elems h1 (buf s)) \<le> MaxItems" using slice_elems_len[of h1 "buf s"] b by simp
  with Pipe_body_commit_error[OF CommitErr, of G] b pc show ?thesis by (auto simp: state_of_def)
next
  case (Flush items ck p1 h1 c1 h2 p2 h3)
  note eq = Pipe_body_flush[OF Flush, of G]
  from nx have "s_len items \<le> MaxItems" by (simp add: eq state_of_def)
  moreover have "length (slice_elems h1 (buf s)) \<le> MaxItems"
    using slice_elems_len[of h1 "buf s"] b by simp
  ultimately show ?thesis using b pc by (auto simp: eq state_of_def)
qed

text \<open>
  Claim C4. In a run of any length in which every \<open>Next\<close> call returned a slice of at most
  \<open>MaxItems\<close> items, the pending buffer is at most \<open>MaxItems\<close> long, and every \<open>Process\<close>
  call was passed a slice of at most \<open>MaxItems\<close> items, holding that many elements at
  most.
\<close>

theorem Pipe_capacity:
  assumes nx: "\<forall>items xs ck e. CallNext items xs ck e \<in> set (calls (state_of (Pipe n G P C p c h)))
                \<longrightarrow> s_len items \<le> MaxItems"
  shows "s_len (buf (state_of (Pipe n G P C p c h))) \<le> MaxItems \<and>
         (\<forall>items xs r. CallProcess items xs r \<in> set (calls (state_of (Pipe n G P C p c h)))
                \<longrightarrow> s_len items \<le> MaxItems \<and> length xs \<le> MaxItems)"
  using nx
proof (induction n)
  case 0
  then show ?case by (simp add: Pipe_def state_of_def nil_slice_def)
next
  case (Suc n)
  show ?case
  proof (cases "Pipe n G P C p c h")
    case (Inl r)
    then have "Pipe (Suc n) G P C p c h = Pipe n G P C p c h" by (simp add: Pipe_Suc)
    with Suc show ?thesis by simp
  next
    case (Inr s)
    then have st: "state_of (Pipe n G P C p c h) = s" by (simp add: state_of_def)
    from Inr have step: "Pipe (Suc n) G P C p c h = Pipe_body G P C s" by (simp add: Pipe_Suc)
    from Pipe_body_calls[of G P C s] obtain ext where
      ext: "calls (state_of (Pipe_body G P C s)) = calls s @ ext" by blast
    from Suc.prems have nx': "\<forall>items xs ck e. CallNext items xs ck e
          \<in> set (calls (state_of (Pipe_body G P C s))) \<longrightarrow> s_len items \<le> MaxItems"
      by (simp only: step)
    with ext have "\<forall>items xs ck e. CallNext items xs ck e \<in> set (calls s) \<longrightarrow> s_len items \<le> MaxItems"
      by simp
    with Suc.IH st have "s_len (buf s) \<le> MaxItems"
      "\<forall>items xs r. CallProcess items xs r \<in> set (calls s)
          \<longrightarrow> s_len items \<le> MaxItems \<and> length xs \<le> MaxItems" by simp_all
    from Pipe_body_capacity[OF this nx'] show ?thesis unfolding step .
  qed
qed

text \<open>
  Claim C5. Let the run be still going after \<open>n\<close> iterations, in state \<open>s\<close>; let the next
  \<open>Next\<close> overflow the buffer and \<open>Process\<close> succeed; let the pending cookies be \<open>pre\<close>,
  then \<open>ck'\<close>, then \<open>post\<close>, and let the commits of \<open>pre\<close> succeed, one after the other, and
  the \<open>Commit\<close> of \<open>ck'\<close>, made in the producer state they leave, fail with \<open>e\<close>. Then
  \<open>Pipe\<close> returns in this iteration (and the result stays the same however many more
  iterations are allowed) the error \<open>error commiting cookie %d: %w\<close> wrapping \<open>e\<close>. The
  producer is left in the state after the failed \<open>Commit\<close>, which itself started from the
  state after the commits of \<open>pre\<close>: those stay committed. The calls of the iteration are
  \<open>Next\<close>, \<open>Process\<close>, the commits of \<open>pre\<close> and the failed \<open>Commit\<close>, which is the last
  call of the run: none is made for \<open>post\<close> or for the batch that has just arrived.
\<close>

theorem Pipe_commit_failure:
  assumes run: "Pipe n G P C p c h = Inr s"
    and nxt: "Next P (pstate s) (store s) = ((items, ck, None), p1, h1)"
    and ovf: "MaxItems < s_len (buf s) + s_len items"
    and proc: "Process C (buf s) (cstate s) h1 = (None, c1, h2)"
    and split: "cookies s = pre @ ck' # post"
    and pre_ok: "commits_succeed P pre p1 h2"
    and pre_st: "after_commits P pre p1 h2 = (pm, hm)"
    and fail: "Commit P ck' pm hm = (Some e, p3, h3)"
  shows "(\<forall>m. Pipe (Suc n + m) G P C p c h =
            Inl (Wrapf ''error commiting cookie %d: %w'' [ck'] e,
              s\<lparr>pstate := p3, cstate := c1, store := h3,
                calls := calls s @
                  [CallNext items (slice_elems h1 items) ck None,
                   CallProcess (buf s) (slice_elems h1 (buf s)) None]
                  @ map (\<lambda>ck. CallCommit ck None) pre @ [CallCommit ck' (Some e)]\<rparr>)) \<and>
         errors_Is (Wrapf ''error commiting cookie %d: %w'' [ck'] e) e"
proof -
  have "Pipe (Suc n) G P C p c h =
            Inl (Wrapf ''error commiting cookie %d: %w'' [ck'] e,
              s\<lparr>pstate := p3, cstate := c1, store := h3,
                calls := calls s @
                  [CallNext items (slice_elems h1 items) ck None,
                   CallProcess (buf s) (slice_elems h1 (buf s)) None]
                  @ map (\<lambda>ck. CallCommit ck None) pre @ [CallCommit ck' (Some e)]\<rparr>)"
    by (simp add: Pipe_Suc run Pipe_body_commit_error[OF nxt ovf proc split pre_ok pre_st fail])
  from Pipe_stable[OF this] errors_Is_Wrapf show ?thesis by blast
qed


subsection \<open>Stores that are left alone\<close>







lemma grows_trans: "grows h h' \<Longrightarrow> grows h' h'' \<Longrightarrow> grows h h''"
  by (auto simp: grows_def)










subsection \<open>The contents of the buffer and of the rounds\<close>





subsection \<open>End of stream and the gating of commits\<close>











subsection \<open>The test runs, evaluated\<close>


lemma length_makeItems [simp]: "length (makeItems start count) = count"
  by (simp add: makeItems_def)

lemmas mock_defs = mockP_def mockC_def mock_Next_def mock_Commit_def mock_Process_def
  newProducer_def newConsumer_def MaxItems_def Pipe_body_def Pipe_def
  append_slice_def slice_elems_def array_at_def whole_def nil_slice_def exact_grow_def
  write_at_def

lemma eof_run_3:
  "Pipe (Suc (Suc (Suc 0))) exact_grow mockP mockC eof_run_producer (newConsumer None) eof_run_store =
     Inr \<lparr>buf = whole 2 1, cookies = [3],
          pstate = eof_run_producer\<lparr>callIndex := 3, commitAttempts := [1, 2], committed := [1, 2]\<rparr>,
          cstate = \<lparr>processed = [makeItems 0 4999 @ makeItems 4999 5000], procErr = None\<rparr>,
          store = eof_run_store @ [makeItems 0 4999, makeItems 0 4999 @ makeItems 4999 5000],
          calls = [CallNext (whole 0 4999) (makeItems 0 4999) 1 None,
                   CallNext (whole 1 5000) (makeItems 4999 5000) 2 None,
                   CallNext (whole 2 1) (makeItems 9999 1) 3 None,
                   CallProcess \<lparr>s_arr = 4, s_off = 0, s_len = 9999, s_cap = 9999\<rparr>
                     (makeItems 0 4999 @ makeItems 4999 5000) None,
                   CallCommit 1 None, CallCommit 2 None]\<rparr>"
  by (simp add: mock_defs eof_run_producer_def eof_run_store_def)



text \<open>The batching test after three iterations: one \<open>Process\<close> call, of 9999 items.\<close>

theorem Pipe_capacity_witness:
  "s_len (buf (state_of (Pipe (Suc (Suc (Suc 0))) exact_grow mockP mockC eof_run_producer
       (newConsumer None) eof_run_store))) \<le> MaxItems \<and>
   CallProcess \<lparr>s_arr = 4, s_off = 0, s_len = 9999, s_cap = 9999\<rparr>
       (makeItems 0 4999 @ makeItems 4999 5000) None
      \<in> set (calls (state_of (Pipe (Suc (Suc (Suc 0))) exact_grow mockP mockC eof_run_producer
            (newConsumer None) eof_run_store))) \<and>
   s_len \<lparr>s_arr = 4, s_off = 0, s_len = 9999, s_cap = 9999\<rparr> \<le> MaxItems \<and>
   length (makeItems 0 4999 @ makeItems 4999 5000) \<le> MaxItems"
proof -
  let ?R = "Pipe (Suc (Suc (Suc 0))) exact_grow mockP mockC eof_run_producer
       (newConsumer None) eof_run_store"
  have nx: "\<forall>items xs ck e. CallNext items xs ck e \<in> set (calls (state_of ?R))
      \<longrightarrow> s_len items \<le> MaxItems"
    by (auto simp: eof_run_3 state_of_def MaxItems_def whole_def)
  have mem: "CallProcess \<lparr>s_arr = 4, s_off = 0, s_len = 9999, s_cap = 9999\<rparr>
       (makeItems 0 4999 @ makeItems 4999 5000) None \<in> set (calls (state_of ?R))"
    by (simp add: eof_run_3 state_of_def)
  from Pipe_capacity[OF nx] mem show ?thesis by blast
qed

lemma commit_fail_run_2:
  "Pipe (Suc (Suc 0)) exact_grow mockP mockC commit_fail_producer (newConsumer None) eof_run_store =
     Inr \<lparr>buf = \<lparr>s_arr = 4, s_off = 0, s_len = 9999, s_cap = 9999\<rparr>, cookies = [1, 2],
          pstate = commit_fail_producer\<lparr>callIndex := 2\<rparr>,
          cstate = newConsumer None,
          store = eof_run_store @ [makeItems 0 4999, makeItems 0 4999 @ makeItems 4999 5000],
          calls = [CallNext (whole 0 4999) (makeItems 0 4999) 1 None,
                   CallNext (whole 1 5000) (makeItems 4999 5000) 2 None]\<rparr>"
  by (simp add: mock_defs eof_run_producer_def commit_fail_producer_def eof_run_store_def)

text \<open>
  \<open>Commit\<close> fails for cookie 2 in the batching test: the producer has committed cookie 1
  and attempted cookies 1 and 2; cookie 3 is never attempted.
\<close>

theorem Pipe_commit_failure_witness:
  "(\<forall>m. Pipe (Suc (Suc (Suc 0)) + m) exact_grow mockP mockC commit_fail_producer
          (newConsumer None) eof_run_store =
      Inl (Wrapf ''error commiting cookie %d: %w'' [2] (New ''commit failed''),
        \<lparr>buf = \<lparr>s_arr = 4, s_off = 0, s_len = 9999, s_cap = 9999\<rparr>, cookies = [1, 2],
          pstate = commit_fail_producer\<lparr>callIndex := 3, commitAttempts := [1, 2], committed := [1]\<rparr>,
          cstate = \<lparr>processed = [makeItems 0 4999 @ makeItems 4999 5000], procErr = None\<rparr>,
          store = eof_run_store @ [makeItems 0 4999, makeItems 0 4999 @ makeItems 4999 5000],
          calls = [CallNext (whole 0 4999) (makeItems 0 4999) 1 None,
                   CallNext (whole 1 5000) (makeItems 4999 5000) 2 None,
                   CallNext (whole 2 1) (makeItems 9999 1) 3 None,
                   CallProcess \<lparr>s_arr = 4, s_off = 0, s_len = 9999, s_cap = 9999\<rparr>
                     (makeItems 0 4999 @ makeItems 4999 5000) None,
                   CallCommit 1 None, CallCommit 2 (Some (New ''commit failed''))]\<rparr>)) \<and>
   errors_Is (Wrapf ''error commiting cookie %d: %w'' [2] (New ''commit failed''))
     (New ''commit failed'')"
proof -
  let ?h = "eof_run_store @ [makeItems 0 4999, makeItems 0 4999 @ makeItems 4999 5000]"
  let ?s = "\<lparr>buf = \<lparr>s_arr = 4, s_off = 0, s_len = 9999, s_cap = 9999\<rparr>, cookies = [1, 2],
          pstate = commit_fail_producer\<lparr>callIndex := 2\<rparr>,
          cstate = newConsumer None, store = ?h,
          calls = [CallNext (whole 0 4999) (makeItems 0 4999) 1 None,
                   CallNext (whole 1 5000) (makeItems 4999 5000) 2 None]\<rparr>"
  let ?p1 = "commit_fail_producer\<lparr>callIndex := 3\<rparr>"
  let ?c1 = "\<lparr>processed = [makeItems 0 4999 @ makeItems 4999 5000], procErr = None\<rparr>"
  have nxt: "Next mockP (pstate ?s) (store ?s) = ((whole 2 1, 3, None), ?p1, ?h)"
    by (simp add: mock_defs eof_run_producer_def commit_fail_producer_def)
  have ovf: "MaxItems < s_len (buf ?s) + s_len (whole 2 1)"
    by (simp add: MaxItems_def whole_def)
  have proc: "Process mockC (buf ?s) (cstate ?s) ?h = (None, ?c1, ?h)"
    by (simp add: mock_defs eof_run_store_def)
  have split: "cookies ?s = [1] @ 2 # []" by simp
  have pre_ok: "commits_succeed mockP [1] ?p1 ?h"
    by (simp add: mock_defs eof_run_producer_def commit_fail_producer_def)
  have pre_st: "after_commits mockP [1] ?p1 ?h =
      (commit_fail_producer\<lparr>callIndex := 3, commitAttempts := [1], committed := [1]\<rparr>, ?h)"
    by (simp add: mock_defs eof_run_producer_def commit_fail_producer_def)
  have fail: "Commit mockP 2
        (commit_fail_producer\<lparr>callIndex := 3, commitAttempts := [1], committed := [1]\<rparr>) ?h =
      (Some (New ''commit failed''),
       commit_fail_producer\<lparr>callIndex := 3, commitAttempts := [1, 2], committed := [1]\<rparr>, ?h)"
    by (simp add: mock_defs eof_run_producer_def commit_fail_producer_def)
  from Pipe_commit_failure[OF commit_fail_run_2 nxt ovf proc split pre_ok pre_st fail]
  show ?thesis by (simp add: mock_defs eof_run_store_def)
qed






lemma overflow_inv: "mock_inv overflow_producer overflow_store"
  by (simp add: mock_inv_def overflow_producer_def overflow_store_def newProducer_def
        wf_slice_def whole_def)









end
